theory Spec2Isabelle
  imports Main "HOL-Library.Word"
begin

section \<open>The program \<open>target-program.c\<close>\<close>

text \<open>
  The whole repository is one C function:
  \<^verbatim>\<open>
  #define SIZE 1000000

  int main() {
      int *arr = malloc(SIZE * sizeof(int));
      if (!arr) return 1;
      for (int i = 0; i < SIZE; i++) { arr[i] = i * 2; }
      long long sum = 0;
      for (int i = 0; i < SIZE; i++) { sum += arr[i]; }
      printf("Sum: %lld\n", sum);
      free(arr);
      return 0;
  }
  \<close>
  It is embedded with explicit state passing. C's \<open>int\<close> is a 32-bit word read as two's
  complement, \<open>long long\<close> a 64-bit word, \<open>size_t\<close> an unsigned 64-bit word. Everything
  that is undefined behaviour in C (signed overflow, an access outside the block, a use
  of a dead block) is a \<open>fault\<close> value of the model, so a run that returns \<open>Inr\<close> has
  met none of them.
\<close>

subsection \<open>Machine integers\<close>

type_synonym c_int = "32 word"
type_synonym c_llong = "64 word"
type_synonym c_size_t = "64 word"

definition INT_MIN :: int where
  "INT_MIN = - (2 ^ 31)"

definition INT_MAX :: int where
  "INT_MAX = 2 ^ 31 - 1"

definition LLONG_MIN :: int where
  "LLONG_MIN = - (2 ^ 63)"

definition LLONG_MAX :: int where
  "LLONG_MAX = 2 ^ 63 - 1"

datatype fault = Signed_Overflow | Out_Of_Bounds | Invalid_Pointer

text \<open>\<open>a * b\<close> and \<open>a + b\<close> on \<open>int\<close>, \<open>a + b\<close> on \<open>long long\<close>: the mathematical
  result when it fits the type, undefined otherwise.\<close>

definition mul_int :: "c_int \<Rightarrow> c_int \<Rightarrow> fault + c_int" where
  "mul_int a b =
     (let r = sint a * sint b
      in if INT_MIN \<le> r \<and> r \<le> INT_MAX then Inr (word_of_int r) else Inl Signed_Overflow)"

definition add_int :: "c_int \<Rightarrow> c_int \<Rightarrow> fault + c_int" where
  "add_int a b =
     (let r = sint a + sint b
      in if INT_MIN \<le> r \<and> r \<le> INT_MAX then Inr (word_of_int r) else Inl Signed_Overflow)"

definition add_llong :: "c_llong \<Rightarrow> c_llong \<Rightarrow> fault + c_llong" where
  "add_llong a b =
     (let r = sint a + sint b
      in if LLONG_MIN \<le> r \<and> r \<le> LLONG_MAX then Inr (word_of_int r) else Inl Signed_Overflow)"

text \<open>The implicit conversions: \<open>int\<close> to \<open>long long\<close> in \<open>sum += arr[i]\<close> (sign
  extension) and \<open>int\<close> to \<open>size_t\<close> in \<open>SIZE * sizeof(int)\<close> (reduction modulo
  \<open>2 ^ 64\<close>).\<close>

definition int_to_llong :: "c_int \<Rightarrow> c_llong" where
  "int_to_llong v = scast v"

definition int_to_size_t :: "c_int \<Rightarrow> c_size_t" where
  "int_to_size_t v = scast v"

definition SIZE :: c_int where
  "SIZE = 1000000"

definition sizeof_int :: c_size_t where
  "sizeof_int = 4"

subsection \<open>The heap, standard output and the calls the program makes\<close>

text \<open>\<open>arr\<close> is either the null pointer or the address of the one block \<open>malloc\<close>
  returned.\<close>

datatype pointer = NULL | Heap_Block

text \<open>The trace lists, oldest first, every library call and every element access of a
  run.\<close>

datatype event =
    Malloc nat bool
  | Store nat c_int
  | Load nat
  | Printf c_llong
  | Free

record state =
  block :: "c_int list option"
  stdout :: string
  trace :: "event list"

definition init_state :: state where
  "init_state = \<lparr>block = None, stdout = [], trace = []\<rparr>"

text \<open>What the program does not decide: whether \<open>malloc\<close> succeeds, and the
  indeterminate contents of the fresh block.\<close>

record env =
  malloc_ok :: bool
  junk :: "nat \<Rightarrow> c_int"

definition malloc :: "env \<Rightarrow> c_size_t \<Rightarrow> state \<Rightarrow> pointer \<times> state" where
  "malloc e nbytes s =
     (if malloc_ok e
      then (Heap_Block,
            s\<lparr>block := Some (map (junk e) [0..<unat nbytes div unat sizeof_int]),
              trace := trace s @ [Malloc (unat nbytes) True]\<rparr>)
      else (NULL, s\<lparr>trace := trace s @ [Malloc (unat nbytes) False]\<rparr>))"

text \<open>\<open>arr[i] = v\<close> and the read of \<open>arr[i]\<close>.\<close>

definition store_elem :: "pointer \<Rightarrow> c_int \<Rightarrow> c_int \<Rightarrow> state \<Rightarrow> fault + state" where
  "store_elem p i v s =
     (case p of
        NULL \<Rightarrow> Inl Invalid_Pointer
      | Heap_Block \<Rightarrow>
          (case block s of
             None \<Rightarrow> Inl Invalid_Pointer
           | Some buf \<Rightarrow>
               if 0 \<le> sint i \<and> nat (sint i) < length buf
               then Inr (s\<lparr>block := Some (buf[nat (sint i) := v]),
                          trace := trace s @ [Store (nat (sint i)) v]\<rparr>)
               else Inl Out_Of_Bounds))"

definition load_elem :: "pointer \<Rightarrow> c_int \<Rightarrow> state \<Rightarrow> fault + (c_int \<times> state)" where
  "load_elem p i s =
     (case p of
        NULL \<Rightarrow> Inl Invalid_Pointer
      | Heap_Block \<Rightarrow>
          (case block s of
             None \<Rightarrow> Inl Invalid_Pointer
           | Some buf \<Rightarrow>
               if 0 \<le> sint i \<and> nat (sint i) < length buf
               then Inr (buf ! nat (sint i), s\<lparr>trace := trace s @ [Load (nat (sint i))]\<rparr>)
               else Inl Out_Of_Bounds))"

text \<open>\<open>free(p)\<close>: nothing for the null pointer, the end of the block otherwise; a
  second \<open>free\<close> of the same block is undefined.\<close>

definition free :: "pointer \<Rightarrow> state \<Rightarrow> fault + state" where
  "free p s =
     (case p of
        NULL \<Rightarrow> Inr s
      | Heap_Block \<Rightarrow>
          (case block s of
             None \<Rightarrow> Inl Invalid_Pointer
           | Some buf \<Rightarrow> Inr (s\<lparr>block := None, trace := trace s @ [Free]\<rparr>)))"

subsection \<open>\<open>printf("Sum: %lld\n", sum)\<close>\<close>

definition digit_char :: "nat \<Rightarrow> char" where
  "digit_char d = ''0123456789'' ! d"

function dec_nat :: "nat \<Rightarrow> string" where
  "dec_nat n = (if n < 10 then [digit_char n] else dec_nat (n div 10) @ [digit_char (n mod 10)])"
  by pat_completeness auto
termination
  by (relation "measure (\<lambda>n. n)") auto

declare dec_nat.simps [simp del]

definition dec_int :: "int \<Rightarrow> string" where
  "dec_int k = (if k < 0 then CHR ''-'' # dec_nat (nat (- k)) else dec_nat (nat k))"

definition printf_Sum :: "c_llong \<Rightarrow> state \<Rightarrow> state" where
  "printf_Sum v s =
     s\<lparr>stdout := stdout s @ ''Sum: '' @ dec_int (sint v) @ [CHR 0x0A],
       trace := trace s @ [Printf v]\<rparr>"

subsection \<open>The two loops\<close>

text \<open>\<open>for (int i = 0; i < SIZE; i++) arr[i] = i * 2;\<close> from the counter value \<open>i\<close>
  on, with \<open>N\<close> for \<open>SIZE\<close>.\<close>

function populate :: "pointer \<Rightarrow> c_int \<Rightarrow> c_int \<Rightarrow> state \<Rightarrow> fault + state" where
  "populate arr N i s =
     (if i <s N
      then (case mul_int i 2 of
              Inl f \<Rightarrow> Inl f
            | Inr v \<Rightarrow>
                (case store_elem arr i v s of
                   Inl f \<Rightarrow> Inl f
                 | Inr s' \<Rightarrow>
                     (case add_int i 1 of
                        Inl f \<Rightarrow> Inl f
                      | Inr i' \<Rightarrow> populate arr N i' s')))
      else Inr s)"
  by pat_completeness auto
termination
proof (relation "measure (\<lambda>(arr, N, i, s). nat (sint N - sint i))")
  fix arr :: pointer and N i v i' :: c_int and s s' :: state
  assume "i <s N" and "add_int i 1 = Inr i'"
  then have "sint i < sint N" and "sint i' = sint i + 1"
    by (auto simp del: of_int_add simp: word_sless_alt add_int_def Let_def INT_MIN_def
        INT_MAX_def signed_of_int signed_take_bit_int_eq_self split: if_splits)
  then show "((arr, N, i', s'), (arr, N, i, s))
      \<in> measure (\<lambda>(arr, N, i, s). nat (sint N - sint i))"
    by simp
qed simp

declare populate.simps [simp del]

text \<open>\<open>for (int i = 0; i < SIZE; i++) sum += arr[i];\<close> from the counter value \<open>i\<close>
  and the accumulator value \<open>acc\<close> (the variable \<open>sum\<close>) on.\<close>

function reduce :: "pointer \<Rightarrow> c_int \<Rightarrow> c_int \<Rightarrow> c_llong \<Rightarrow> state \<Rightarrow> fault + (c_llong \<times> state)" where
  "reduce arr N i acc s =
     (if i <s N
      then (case load_elem arr i s of
              Inl f \<Rightarrow> Inl f
            | Inr (v, s') \<Rightarrow>
                (case add_llong acc (int_to_llong v) of
                   Inl f \<Rightarrow> Inl f
                 | Inr acc' \<Rightarrow>
                     (case add_int i 1 of
                        Inl f \<Rightarrow> Inl f
                      | Inr i' \<Rightarrow> reduce arr N i' acc' s')))
      else Inr (acc, s))"
  by pat_completeness auto
termination
proof (relation "measure (\<lambda>(arr, N, i, acc, s). nat (sint N - sint i))")
  fix arr :: pointer and N i v i' :: c_int and acc acc' :: c_llong and s s' :: state
  assume "i <s N" and "add_int i 1 = Inr i'"
  then have "sint i < sint N" and "sint i' = sint i + 1"
    by (auto simp del: of_int_add simp: word_sless_alt add_int_def Let_def INT_MIN_def
        INT_MAX_def signed_of_int signed_take_bit_int_eq_self split: if_splits)
  then show "((arr, N, i', acc', s'), (arr, N, i, acc, s))
      \<in> measure (\<lambda>(arr, N, i, acc, s). nat (sint N - sint i))"
    by simp
qed simp

declare reduce.simps [simp del]

subsection \<open>\<open>main\<close>\<close>

text \<open>The body of \<open>main\<close> for a value \<open>N\<close> of the macro \<open>SIZE\<close>; the result is the exit
  status and the final state, or the undefined behaviour the run met.\<close>

definition main_body :: "c_int \<Rightarrow> env \<Rightarrow> fault + (c_int \<times> state)" where
  "main_body N e =
     (let (arr, s1) = malloc e (int_to_size_t N * sizeof_int) init_state
      in if arr = NULL then Inr (1, s1)
         else (case populate arr N 0 s1 of
                 Inl f \<Rightarrow> Inl f
               | Inr s2 \<Rightarrow>
                   (case reduce arr N 0 0 s2 of
                      Inl f \<Rightarrow> Inl f
                    | Inr (acc, s3) \<Rightarrow>
                        (case free arr (printf_Sum acc s3) of
                           Inl f \<Rightarrow> Inl f
                         | Inr s5 \<Rightarrow> Inr (0, s5)))))"

definition main :: "env \<Rightarrow> fault + (c_int \<times> state)" where
  "main e = main_body SIZE e"

subsection \<open>What a run shows\<close>

text \<open>The values \<open>printf\<close> was called with, the length of the live block, whether an
  element access lies inside a block of \<open>n\<close> elements, and what an observer of the process
  sees of a run: the exit status and standard output, or the undefined behaviour.\<close>

primrec reported :: "event list \<Rightarrow> c_llong list" where
  "reported [] = []"
| "reported (ev # evs) = (case ev of Printf v \<Rightarrow> v # reported evs | _ \<Rightarrow> reported evs)"

definition block_length :: "state \<Rightarrow> nat option" where
  "block_length s = map_option length (block s)"

fun in_bounds :: "nat \<Rightarrow> event \<Rightarrow> bool" where
  "in_bounds n (Store i v) = (i < n)"
| "in_bounds n (Load i) = (i < n)"
| "in_bounds n (Malloc b ok) = True"
| "in_bounds n (Printf v) = True"
| "in_bounds n Free = True"

definition observable :: "fault + (c_int \<times> state) \<Rightarrow> fault + (c_int \<times> string)" where
  "observable r = (case r of Inl f \<Rightarrow> Inl f | Inr (c, s) \<Rightarrow> Inr (c, stdout s))"

section \<open>Properties\<close>

subsection \<open>Arithmetic on counters below \<open>2 ^ 30\<close>\<close>

lemma sint_of_nat_32:
  "k < 2 ^ 31 \<Longrightarrow> sint (word_of_nat k :: c_int) = int k"
proof -
  assume "k < 2 ^ 31"
  then have "int k < 2 ^ 31" by (metis of_nat_less_iff of_nat_numeral of_nat_power)
  then have "signed_take_bit 31 (int k) = int k"
    by (simp add: signed_take_bit_int_eq_self)
  then show ?thesis
    by (simp add: signed_of_nat)
qed

lemma sint_of_nat_64:
  "k < 2 ^ 63 \<Longrightarrow> sint (word_of_nat k :: c_llong) = int k"
proof -
  assume "k < 2 ^ 63"
  then have "int k < 2 ^ 63" by (metis of_nat_less_iff of_nat_numeral of_nat_power)
  then have "signed_take_bit 63 (int k) = int k"
    by (simp add: signed_take_bit_int_eq_self)
  then show ?thesis
    by (simp add: signed_of_nat)
qed

lemma sless_of_nat:
  "k < 2 ^ 31 \<Longrightarrow> n < 2 ^ 31 \<Longrightarrow> (word_of_nat k :: c_int) <s word_of_nat n \<longleftrightarrow> k < n"
  by (simp add: word_sless_alt sint_of_nat_32)

lemma mul_int_2:
  "k < 2 ^ 30 \<Longrightarrow> mul_int (word_of_nat k) 2 = Inr (word_of_nat (2 * k))"
  by (simp add: mul_int_def Let_def INT_MIN_def INT_MAX_def sint_of_nat_32 mult.commute)

lemma add_int_1:
  "k < 2 ^ 30 \<Longrightarrow> add_int (word_of_nat k) 1 = Inr (word_of_nat (Suc k))"
  by (simp add: add_int_def Let_def INT_MIN_def INT_MAX_def sint_of_nat_32 add.commute)

lemma int_to_llong_of_nat:
  "k < 2 ^ 31 \<Longrightarrow> int_to_llong (word_of_nat k) = word_of_nat k"
  by (simp add: int_to_llong_def scast_eq sint_of_nat_32)

lemma int_to_size_t_of_nat:
  "k < 2 ^ 31 \<Longrightarrow> int_to_size_t (word_of_nat k) = word_of_nat k"
  by (simp add: int_to_size_t_def scast_eq sint_of_nat_32)

lemma add_llong_of_nat:
  "a + b < 2 ^ 63 \<Longrightarrow> add_llong (word_of_nat a) (word_of_nat b) = Inr (word_of_nat (a + b))"
proof -
  assume h: "a + b < 2 ^ 63"
  then have "int a + int b < 2 ^ 63" by (metis of_nat_less_iff of_nat_numeral of_nat_power of_nat_add)
  then show ?thesis using h
  by (simp add: add_llong_def Let_def LLONG_MIN_def LLONG_MAX_def sint_of_nat_64)
qed

lemma unat_bytes:
  "n \<le> 2 ^ 30 \<Longrightarrow> unat (int_to_size_t (word_of_nat n) * sizeof_int) = 4 * n"
  by (simp add: int_to_size_t_of_nat sizeof_int_def unat_word_ariths unat_of_nat)

lemma store_elem_of_nat:
  "block s = Some buf \<Longrightarrow> k < length buf \<Longrightarrow> k < 2 ^ 31 \<Longrightarrow>
   store_elem Heap_Block (word_of_nat k) v s =
     Inr (s\<lparr>block := Some (buf[k := v]), trace := trace s @ [Store k v]\<rparr>)"
  by (simp add: store_elem_def sint_of_nat_32)

lemma load_elem_of_nat:
  "block s = Some buf \<Longrightarrow> k < length buf \<Longrightarrow> k < 2 ^ 31 \<Longrightarrow>
   load_elem Heap_Block (word_of_nat k) s = Inr (buf ! k, s\<lparr>trace := trace s @ [Load k]\<rparr>)"
  by (simp add: load_elem_def sint_of_nat_32)

subsection \<open>The loops from any counter value\<close>

lemma populate_run:
  "block s = Some buf \<Longrightarrow> length buf = n \<Longrightarrow> k \<le> n \<Longrightarrow> n \<le> 2 ^ 30 \<Longrightarrow>
   populate Heap_Block (word_of_nat n) (word_of_nat k) s =
     Inr (s\<lparr>block := Some (take k buf @ map (\<lambda>j. word_of_nat (2 * j)) [k..<n]),
            trace := trace s @ map (\<lambda>j. Store j (word_of_nat (2 * j))) [k..<n]\<rparr>)"
proof (induction "n - k" arbitrary: k s buf)
  case 0
  then have "k = n" by simp
  with 0 show ?case
    by (simp add: populate.simps [of _ _ "word_of_nat n"] word_sless_alt)
next
  case (Suc d)
  then have lt: "k < n" and k30: "k < 2 ^ 30" and k31: "k < 2 ^ 31" and n31: "n < 2 ^ 31"
    by simp_all
  let ?v = "word_of_nat (2 * k) :: c_int"
  let ?s' = "s\<lparr>block := Some (buf[k := ?v]), trace := trace s @ [Store k ?v]\<rparr>"
  have st: "store_elem Heap_Block (word_of_nat k) ?v s = Inr ?s'"
    using Suc.prems lt k31 by (simp del: of_nat_mult add: store_elem_of_nat)
  have ih: "populate Heap_Block (word_of_nat n) (word_of_nat (Suc k)) ?s' =
     Inr (?s'\<lparr>block := Some (take (Suc k) (buf[k := ?v]) @ map (\<lambda>j. word_of_nat (2 * j)) [Suc k..<n]),
            trace := trace ?s' @ map (\<lambda>j. Store j (word_of_nat (2 * j))) [Suc k..<n]\<rparr>)"
    using Suc.hyps(2) Suc.prems lt by (intro Suc.hyps(1)) simp_all
  have tk: "take (Suc k) (buf[k := ?v]) = take k buf @ [?v]"
    using Suc.prems lt by (simp del: of_nat_mult add: take_Suc_conv_app_nth)
  have "populate Heap_Block (word_of_nat n) (word_of_nat k) s =
        populate Heap_Block (word_of_nat n) (word_of_nat (Suc k)) ?s'"
    using lt k30 k31 n31 st
    by (subst populate.simps) (simp del: of_nat_mult of_nat_Suc add: sless_of_nat mul_int_2 add_int_1)
  also note ih
  finally show ?case
    using lt by (simp del: of_nat_mult add: tk upt_conv_Cons)
qed

lemma reduce_run:
  "block s = Some buf \<Longrightarrow> length buf = n \<Longrightarrow> k \<le> n \<Longrightarrow> n \<le> 2 ^ 30 \<Longrightarrow>
   (\<forall>j. k \<le> j \<and> j < n \<longrightarrow> buf ! j = word_of_nat (2 * j)) \<Longrightarrow>
   a + (\<Sum>j = k..<n. 2 * j) < 2 ^ 63 \<Longrightarrow>
   reduce Heap_Block (word_of_nat n) (word_of_nat k) (word_of_nat a) s =
     Inr (word_of_nat (a + (\<Sum>j = k..<n. 2 * j)), s\<lparr>trace := trace s @ map Load [k..<n]\<rparr>)"
proof (induction "n - k" arbitrary: k s a)
  case 0
  then have "k = n" by simp
  with 0 show ?case
    by (simp add: reduce.simps [of _ _ "word_of_nat n"] word_sless_alt)
next
  case (Suc d)
  then have lt: "k < n" and k30: "k < 2 ^ 30" and k31: "k < 2 ^ 31" and n31: "n < 2 ^ 31"
    and k2: "2 * k < 2 ^ 31"
    by simp_all
  let ?s' = "s\<lparr>trace := trace s @ [Load k]\<rparr>"
  have sm: "(\<Sum>j = k..<n. 2 * j) = 2 * k + (\<Sum>j = Suc k..<n. 2 * j)"
    using lt by (simp add: sum.atLeast_Suc_lessThan)
  have ld: "load_elem Heap_Block (word_of_nat k) s = Inr (word_of_nat (2 * k), ?s')"
    using Suc.prems lt k31 by (simp del: of_nat_mult add: load_elem_of_nat)
  have ad: "add_llong (word_of_nat a) (int_to_llong (word_of_nat (2 * k))) = Inr (word_of_nat (a + 2 * k))"
    using Suc.prems(6) k2 unfolding sm
    by (simp del: of_nat_mult of_nat_add add: int_to_llong_of_nat add_llong_of_nat)
  have ih: "reduce Heap_Block (word_of_nat n) (word_of_nat (Suc k)) (word_of_nat (a + 2 * k)) ?s' =
     Inr (word_of_nat (a + 2 * k + (\<Sum>j = Suc k..<n. 2 * j)), ?s'\<lparr>trace := trace ?s' @ map Load [Suc k..<n]\<rparr>)"
    using Suc.hyps(2) Suc.prems lt unfolding sm by (intro Suc.hyps(1)) simp_all
  have "reduce Heap_Block (word_of_nat n) (word_of_nat k) (word_of_nat a) s =
        reduce Heap_Block (word_of_nat n) (word_of_nat (Suc k)) (word_of_nat (a + 2 * k)) ?s'"
    using lt k30 k31 n31 ld ad
    by (subst reduce.simps) (simp del: of_nat_mult of_nat_add of_nat_Suc add: sless_of_nat add_int_1)
  also note ih
  finally show ?case
    using lt by (simp del: of_nat_mult of_nat_add add: sm upt_conv_Cons add.assoc)
qed

lemma sum_closed_form: "(\<Sum>j = 0..<n. 2 * j) = n * (n - 1)" for n :: nat
  by (induction n) (auto simp: algebra_simps)

lemma closed_form_bound: "n \<le> 2 ^ 30 \<Longrightarrow> n * (n - 1) < 2 ^ 63" for n :: nat
proof -
  assume "n \<le> 2 ^ 30"
  then have "n * (n - 1) \<le> 2 ^ 30 * 2 ^ 30"
    by (intro mult_le_mono) simp_all
  also have "\<dots> < (2 ^ 63 :: nat)" by simp
  finally show ?thesis .
qed

subsection \<open>A whole run, for any \<open>SIZE\<close> up to \<open>2 ^ 30\<close>\<close>

lemma malloc_success:
  "malloc_ok e \<Longrightarrow> n \<le> 2 ^ 30 \<Longrightarrow>
   malloc e (int_to_size_t (word_of_nat n) * sizeof_int) init_state =
     (Heap_Block, \<lparr>block = Some (map (junk e) [0..<n]), stdout = [], trace = [Malloc (4 * n) True]\<rparr>)"
  by (simp add: malloc_def unat_bytes init_state_def) (simp add: sizeof_int_def)

lemma malloc_failure:
  "\<not> malloc_ok e \<Longrightarrow>
   malloc e nbytes init_state =
     (NULL, \<lparr>block = None, stdout = [], trace = [Malloc (unat nbytes) False]\<rparr>)"
  by (simp add: malloc_def init_state_def)

lemma populate_fresh:
  assumes "n \<le> 2 ^ 30" and "length buf = n"
  shows "populate Heap_Block (word_of_nat n) 0 \<lparr>block = Some buf, stdout = out, trace = tr\<rparr> =
     Inr \<lparr>block = Some (map (\<lambda>j. word_of_nat (2 * j)) [0..<n]), stdout = out,
          trace = tr @ map (\<lambda>j. Store j (word_of_nat (2 * j))) [0..<n]\<rparr>"
  using populate_run [of "\<lparr>block = Some buf, stdout = out, trace = tr\<rparr>" buf n 0] assms
  by (simp del: of_nat_mult)

lemma reduce_filled:
  assumes "n \<le> 2 ^ 30"
  shows "reduce Heap_Block (word_of_nat n) 0 0
       \<lparr>block = Some (map (\<lambda>j. word_of_nat (2 * j)) [0..<n]), stdout = out, trace = tr\<rparr> =
     Inr (word_of_nat (n * (n - 1)),
          \<lparr>block = Some (map (\<lambda>j. word_of_nat (2 * j)) [0..<n]), stdout = out,
           trace = tr @ map Load [0..<n]\<rparr>)"
  using reduce_run [of "\<lparr>block = Some (map (\<lambda>j. word_of_nat (2 * j)) [0..<n]), stdout = out, trace = tr\<rparr>"
      "map (\<lambda>j. word_of_nat (2 * j)) [0..<n]" n 0 0] assms closed_form_bound [OF assms]
  by (simp del: of_nat_mult add: sum_closed_form)

lemma free_live:
  "free Heap_Block \<lparr>block = Some buf, stdout = out, trace = tr\<rparr> =
     Inr \<lparr>block = None, stdout = out, trace = tr @ [Free]\<rparr>"
  by (simp add: free_def)

lemma main_body_success:
  assumes "malloc_ok e" and "n \<le> 2 ^ 30"
  shows "main_body (word_of_nat n) e =
     Inr (0, \<lparr>block = None,
              stdout = ''Sum: '' @ dec_int (int (n * (n - 1))) @ [CHR 0x0A],
              trace = Malloc (4 * n) True # map (\<lambda>j. Store j (word_of_nat (2 * j))) [0..<n] @
                map Load [0..<n] @ [Printf (word_of_nat (n * (n - 1))), Free]\<rparr>)"
proof -
  have "sint (word_of_nat (n * (n - 1)) :: c_llong) = int (n * (n - 1))"
    using closed_form_bound [OF assms(2)] by (rule sint_of_nat_64)
  with assms(2) show ?thesis
    unfolding main_body_def malloc_success [OF assms]
    by (simp del: of_nat_mult add: populate_fresh reduce_filled printf_Sum_def free_live)
qed

lemma main_body_failure:
  "\<not> malloc_ok e \<Longrightarrow>
   main_body N e =
     Inr (1, \<lparr>block = None, stdout = [], trace = [Malloc (unat (int_to_size_t N * sizeof_int)) False]\<rparr>)"
  by (simp add: main_body_def malloc_failure)

subsection \<open>The run of \<open>main\<close> with \<open>SIZE = 1000000\<close>\<close>

lemma unat_SIZE: "unat SIZE = 1000000"
  by (simp add: SIZE_def)

lemma SIZE_of_nat: "SIZE = word_of_nat (unat SIZE)"
  by simp

lemma SIZE_le: "unat SIZE \<le> 2 ^ 30"
  by (simp add: unat_SIZE)

lemma reported_append: "reported (xs @ ys) = reported xs @ reported ys"
  by (induction xs) (simp_all split: event.split)

lemma reported_map_Store: "reported (map (\<lambda>j. Store j (f j)) xs) = []"
  by (induction xs) simp_all

lemma reported_map_Load: "reported (map Load xs) = []"
  by (induction xs) simp_all

lemma bytes_SIZE: "4 * unat SIZE = 4000000"
  by (simp add: unat_SIZE)

lemma closed_form_SIZE: "unat SIZE * (unat SIZE - 1) = 999999000000"
  by (simp add: unat_SIZE)

lemma dec_int_sum: "dec_int 999999000000 = ''999999000000''"
  by (simp add: dec_int_def dec_nat.simps digit_char_def)

lemma malloc_SIZE:
  "malloc_ok e \<Longrightarrow>
   malloc e (int_to_size_t SIZE * sizeof_int) init_state =
     (Heap_Block, \<lparr>block = Some (map (junk e) [0..<unat SIZE]), stdout = [],
        trace = [Malloc 4000000 True]\<rparr>)"
  using malloc_success [of e "unat SIZE"] SIZE_le by (simp only: bytes_SIZE SIZE_of_nat [symmetric])

lemma populate_SIZE:
  "length buf = unat SIZE \<Longrightarrow>
   populate Heap_Block SIZE 0 \<lparr>block = Some buf, stdout = out, trace = tr\<rparr> =
     Inr \<lparr>block = Some (map (\<lambda>j. word_of_nat (2 * j)) [0..<unat SIZE]), stdout = out,
          trace = tr @ map (\<lambda>j. Store j (word_of_nat (2 * j))) [0..<unat SIZE]\<rparr>"
  using populate_fresh [of "unat SIZE" buf out tr] SIZE_le by (simp only: SIZE_of_nat [symmetric])

lemma reduce_SIZE:
  "reduce Heap_Block SIZE 0 0
       \<lparr>block = Some (map (\<lambda>j. word_of_nat (2 * j)) [0..<unat SIZE]), stdout = out, trace = tr\<rparr> =
     Inr (999999000000,
          \<lparr>block = Some (map (\<lambda>j. word_of_nat (2 * j)) [0..<unat SIZE]), stdout = out,
           trace = tr @ map Load [0..<unat SIZE]\<rparr>)"
proof -
  have "(word_of_nat 999999000000 :: c_llong) = 999999000000" by simp
  then show ?thesis
    using reduce_filled [of "unat SIZE" out tr] SIZE_le
    by (simp only: SIZE_of_nat [symmetric] closed_form_SIZE)
qed

lemma main_success:
  "malloc_ok e \<Longrightarrow>
   main e = Inr (0, \<lparr>block = None, stdout = ''Sum: 999999000000\<newline>'',
     trace = Malloc 4000000 True # map (\<lambda>j. Store j (word_of_nat (2 * j))) [0..<unat SIZE] @
       map Load [0..<unat SIZE] @ [Printf 999999000000, Free]\<rparr>)"
proof -
  assume ok: "malloc_ok e"
  have w: "(word_of_nat 999999000000 :: c_llong) = 999999000000" by simp
  have d: "''Sum: '' @ dec_int (int 999999000000) @ [CHR 0x0A] = ''Sum: 999999000000\<newline>''"
    by (simp add: dec_int_sum)
  show ?thesis
    unfolding main_def
    using main_body_success [OF ok SIZE_le]
    by (simp only: SIZE_of_nat [symmetric] closed_form_SIZE bytes_SIZE w d)
qed

lemma main_failure:
  "\<not> malloc_ok e \<Longrightarrow>
   main e = Inr (1, \<lparr>block = None, stdout = [], trace = [Malloc 4000000 False]\<rparr>)"
proof -
  have "unat (int_to_size_t SIZE * sizeof_int) = 4000000"
    using unat_bytes [OF SIZE_le] by (simp only: SIZE_of_nat [symmetric] bytes_SIZE)
  then show "\<not> malloc_ok e \<Longrightarrow> ?thesis"
    by (simp add: main_def main_body_failure)
qed

lemma sint_SIZE: "sint SIZE = 1000000"
  by (simp add: SIZE_def)

lemma sum_SIZE: "(\<Sum>i = 0..<unat SIZE. 2 * int i) = 999999000000"
proof -
  have "(\<Sum>i = 0..<unat SIZE. 2 * int i) = int (\<Sum>i = 0..<unat SIZE. 2 * i)"
    by simp
  also have "\<dots> = int (unat SIZE * (unat SIZE - 1))"
    by (simp only: sum_closed_form)
  also have "\<dots> = 999999000000"
    by (simp only: closed_form_SIZE)
  finally show ?thesis .
qed

subsection \<open>The populated buffer\<close>

lemma filled_nth:
  "i < unat SIZE \<Longrightarrow> sint (map (\<lambda>j. word_of_nat (2 * j) :: c_int) [0..<unat SIZE] ! i) = 2 * int i"
proof -
  assume lt: "i < unat SIZE"
  then have "2 * i < 2 ^ 31"
    using SIZE_le by simp
  then have "sint (word_of_nat (2 * i) :: c_int) = int (2 * i)"
    by (rule sint_of_nat_32)
  with lt show ?thesis
    by (simp del: of_nat_mult)
qed

lemma sum_nth_filled:
  "(\<Sum>i = 0..<unat SIZE. sint (map (\<lambda>j. word_of_nat (2 * j) :: c_int) [0..<unat SIZE] ! i)) =
   (\<Sum>i = 0..<unat SIZE. 2 * int i)"
  by (rule sum.cong) (simp_all only: filled_nth atLeastLessThan_iff)

subsection \<open>What an observer sees\<close>

lemma observable_main:
  "observable (main e) =
     (if malloc_ok e then Inr (0, ''Sum: 999999000000\<newline>'') else Inr (1, []))"
  by (simp add: observable_def main_success main_failure)

subsection \<open>The length of the block\<close>

lemma store_elem_length:
  "store_elem p i v s = Inr s' \<Longrightarrow> block_length s' = block_length s"
  by (auto simp: store_elem_def block_length_def split: pointer.splits option.splits if_splits)

lemma load_elem_length:
  "load_elem p i s = Inr (v, s') \<Longrightarrow> block_length s' = block_length s"
  by (auto simp: load_elem_def block_length_def split: pointer.splits option.splits if_splits)

lemma populate_length:
  "populate p N i s = Inr s' \<Longrightarrow> block_length s' = block_length s"
proof (induction p N i s rule: populate.induct)
  case (1 arr N i s)
  show ?case
  proof (cases "i <s N")
    case False
    with "1.prems" show ?thesis
      by (simp add: populate.simps [of arr N i s])
  next
    case True
    with "1.prems" obtain v s1 i' where
      m: "mul_int i 2 = Inr v" and st: "store_elem arr i v s = Inr s1" and
      a: "add_int i 1 = Inr i'" and rest: "populate arr N i' s1 = Inr s'"
      by (auto simp: populate.simps [of arr N i s] split: sum.splits)
    from "1.IH" [OF True m st a rest] store_elem_length [OF st] show ?thesis
      by simp
  qed
qed

lemma reduce_length:
  "reduce p N i a s = Inr (a', s') \<Longrightarrow> block_length s' = block_length s"
proof (induction p N i a s rule: reduce.induct)
  case (1 arr N i acc s)
  show ?case
  proof (cases "i <s N")
    case False
    with "1.prems" show ?thesis
      by (simp add: reduce.simps [of arr N i acc s])
  next
    case True
    with "1.prems" obtain v s1 acc1 i' where
      ld: "load_elem arr i s = Inr (v, s1)" and ad: "add_llong acc (int_to_llong v) = Inr acc1" and
      a: "add_int i 1 = Inr i'" and rest: "reduce arr N i' acc1 s1 = Inr (a', s')"
      by (auto simp: reduce.simps [of arr N i acc s] split: sum.splits)
    from "1.IH" [OF True ld refl ad a rest] load_elem_length [OF ld] show ?thesis
      by simp
  qed
qed

lemma printf_Sum_length: "block_length (printf_Sum a s) = block_length s"
  by (simp add: printf_Sum_def block_length_def)

lemma free_after_printf:
  "free Heap_Block (printf_Sum acc \<lparr>block = Some buf, stdout = out, trace = tr\<rparr>) =
     Inr \<lparr>block = None, stdout = out @ ''Sum: '' @ dec_int (sint acc) @ ''\<newline>'',
       trace = tr @ [Printf acc, Free]\<rparr>"
  by (simp add: printf_Sum_def free_def)

subsection \<open>\<open>SIZE\<close> set to 0 and to 1\<close>

lemma populate_empty: "populate p 0 0 s = Inr s"
  by (simp add: populate.simps [of p 0 0 s] word_sless_alt)

lemma reduce_empty: "reduce p 0 0 a s = Inr (a, s)"
  by (simp add: reduce.simps [of p 0 0 a s] word_sless_alt)

lemma main_body_0:
  "main_body 0 e =
     (if malloc_ok e
      then Inr (0, \<lparr>block = None, stdout = ''Sum: 0\<newline>'', trace = [Malloc 0 True, Printf 0, Free]\<rparr>)
      else Inr (1, \<lparr>block = None, stdout = [], trace = [Malloc 0 False]\<rparr>))"
  by (simp add: main_body_def malloc_def init_state_def int_to_size_t_def sizeof_int_def
      populate_empty reduce_empty printf_Sum_def free_def dec_int_def dec_nat.simps digit_char_def)

lemma main_body_1:
  "main_body 1 e =
     (if malloc_ok e
      then Inr (0, \<lparr>block = None, stdout = ''Sum: 0\<newline>'',
             trace = [Malloc 4 True, Store 0 0, Load 0, Printf 0, Free]\<rparr>)
      else Inr (1, \<lparr>block = None, stdout = [], trace = [Malloc 4 False]\<rparr>))"
proof (cases "malloc_ok e")
  case True
  have "(1 :: nat) \<le> 2 ^ 30" by simp
  from main_body_success [OF True this] True show ?thesis
    by (simp add: dec_int_def dec_nat.simps digit_char_def)
next
  case False
  then show ?thesis
    by (simp add: main_body_failure int_to_size_t_def sizeof_int_def)
qed

subsection \<open>The byte count and the stored values\<close>

lemma bytes_no_wrap: "uint (int_to_size_t SIZE * sizeof_int) = sint SIZE * 4"
  by (simp add: SIZE_def int_to_size_t_def sizeof_int_def)

lemma bytes_requested: "unat (int_to_size_t SIZE * sizeof_int) = 4000000"
  by (simp add: SIZE_def int_to_size_t_def sizeof_int_def)

lemma stored_value:
  "j < unat SIZE \<Longrightarrow>
   sint (word_of_nat (2 * j) :: c_int) = 2 * int j \<and> 2 * int j \<le> 1999998"
proof -
  assume lt: "j < unat SIZE"
  then have "2 * j < 2 ^ 31"
    using SIZE_le by simp
  then have "sint (word_of_nat (2 * j) :: c_int) = int (2 * j)"
    by (rule sint_of_nat_32)
  moreover from lt have "2 * int j \<le> 1999998"
    by (simp add: unat_SIZE)
  ultimately show ?thesis
    by simp
qed

section \<open>The claims\<close>

text \<open>C1: when the allocation succeeds, the accumulator value the program reports is the
  closed form \<open>N * (N - 1)\<close> for \<open>N = SIZE\<close>, which is the sum of \<open>2 * i\<close> over all
  \<open>i\<close> in \<open>[0, N)\<close> and is exactly 999999000000.\<close>

theorem reported_sum_closed_form:
  "malloc_ok e \<Longrightarrow>
   \<exists>s acc. main e = Inr (0, s) \<and> reported (trace s) = [acc] \<and>
     sint acc = sint SIZE * (sint SIZE - 1) \<and>
     sint acc = (\<Sum>i = 0..<unat SIZE. 2 * int i) \<and>
     sint acc = 999999000000"
proof -
  assume "malloc_ok e"
  then have run: "main e = Inr (0, \<lparr>block = None, stdout = ''Sum: 999999000000\<newline>'',
     trace = Malloc 4000000 True # map (\<lambda>j. Store j (word_of_nat (2 * j))) [0..<unat SIZE] @
       map Load [0..<unat SIZE] @ [Printf 999999000000, Free]\<rparr>)"
    by (rule main_success)
  have rep: "reported (Malloc 4000000 True # map (\<lambda>j. Store j (word_of_nat (2 * j))) [0..<unat SIZE] @
       map Load [0..<unat SIZE] @ [Printf 999999000000, Free]) = [999999000000]"
    by (simp add: reported_append reported_map_Store reported_map_Load)
  have val: "sint (999999000000 :: c_llong) = 999999000000"
    by simp
  have cf: "sint SIZE * (sint SIZE - 1) = 999999000000"
    by (simp add: sint_SIZE)
  show ?thesis
    using run rep val cf sum_SIZE by simp
qed

theorem reported_sum_closed_form_witness:
  "malloc_ok \<lparr>malloc_ok = True, junk = \<lambda>_. 0\<rparr> \<and>
   (\<exists>s acc. main \<lparr>malloc_ok = True, junk = \<lambda>_. 0\<rparr> = Inr (0, s) \<and> reported (trace s) = [acc] \<and>
     sint acc = 999999000000)"
  using reported_sum_closed_form [of "\<lparr>malloc_ok = True, junk = \<lambda>_. 0\<rparr>"] by auto

text \<open>C2: when the allocation succeeds, standard output holds exactly the one line
  \<open>Sum: 999999000000\<close> with its line terminator, written by the single call of
  \<open>printf\<close>, and the exit status is 0.\<close>

theorem main_output:
  "malloc_ok e \<Longrightarrow>
   \<exists>s. main e = Inr (0, s) \<and> stdout s = ''Sum: 999999000000\<newline>'' \<and>
     length (reported (trace s)) = 1"
proof -
  assume "malloc_ok e"
  then have run: "main e = Inr (0, \<lparr>block = None, stdout = ''Sum: 999999000000\<newline>'',
     trace = Malloc 4000000 True # map (\<lambda>j. Store j (word_of_nat (2 * j))) [0..<unat SIZE] @
       map Load [0..<unat SIZE] @ [Printf 999999000000, Free]\<rparr>)"
    by (rule main_success)
  have rep: "reported (Malloc 4000000 True # map (\<lambda>j. Store j (word_of_nat (2 * j))) [0..<unat SIZE] @
       map Load [0..<unat SIZE] @ [Printf 999999000000, Free]) = [999999000000]"
    by (simp add: reported_append reported_map_Store reported_map_Load)
  show ?thesis
    using run rep by simp
qed

theorem main_output_witness:
  "malloc_ok \<lparr>malloc_ok = True, junk = \<lambda>k. word_of_nat k\<rparr> \<and>
   (\<exists>s. main \<lparr>malloc_ok = True, junk = \<lambda>k. word_of_nat k\<rparr> = Inr (0, s) \<and>
     stdout s = ''Sum: 999999000000\<newline>'')"
  using main_output [of "\<lparr>malloc_ok = True, junk = \<lambda>k. word_of_nat k\<rparr>"] by auto

text \<open>C3: right after the populate loop, every element \<open>i\<close> of the buffer of
  \<open>SIZE\<close> elements reads \<open>2 * i\<close>; the loop stores to each index of \<open>[0, SIZE)\<close> exactly
  once, in ascending order, a value that depends on the index alone; and on a block that
  \<open>malloc\<close> returned it ends without a fault, whatever the block held before.\<close>

theorem populate_correct:
  "malloc_ok e \<Longrightarrow>
   \<exists>s1 buf. malloc e (int_to_size_t SIZE * sizeof_int) init_state = (Heap_Block, s1) \<and>
     populate Heap_Block SIZE 0 s1 =
       Inr (s1\<lparr>block := Some buf,
              trace := trace s1 @ map (\<lambda>i. Store i (word_of_nat (2 * i))) [0..<unat SIZE]\<rparr>) \<and>
     length buf = unat SIZE \<and> unat SIZE = 1000000 \<and>
     (\<forall>i<unat SIZE. sint (buf ! i) = 2 * int i)"
proof -
  assume ok: "malloc_ok e"
  let ?s1 = "\<lparr>block = Some (map (junk e) [0..<unat SIZE]), stdout = [],
        trace = [Malloc 4000000 True]\<rparr>"
  let ?buf = "map (\<lambda>j. word_of_nat (2 * j) :: c_int) [0..<unat SIZE]"
  have m: "malloc e (int_to_size_t SIZE * sizeof_int) init_state = (Heap_Block, ?s1)"
    using ok by (rule malloc_SIZE)
  have p: "populate Heap_Block SIZE 0 ?s1 =
       Inr (?s1\<lparr>block := Some ?buf,
              trace := trace ?s1 @ map (\<lambda>i. Store i (word_of_nat (2 * i))) [0..<unat SIZE]\<rparr>)"
    by (simp del: of_nat_mult add: populate_SIZE)
  have l: "length ?buf = unat SIZE"
    by simp
  have v: "\<forall>i<unat SIZE. sint (?buf ! i) = 2 * int i"
    using filled_nth by blast
  from m p l v unat_SIZE show ?thesis
    by blast
qed

theorem populate_correct_witness:
  "malloc_ok \<lparr>malloc_ok = True, junk = \<lambda>k. - 1\<rparr> \<and>
   (\<exists>s1 buf. malloc \<lparr>malloc_ok = True, junk = \<lambda>k. - 1\<rparr> (int_to_size_t SIZE * sizeof_int) init_state
        = (Heap_Block, s1) \<and>
     populate Heap_Block SIZE 0 s1 =
       Inr (s1\<lparr>block := Some buf,
              trace := trace s1 @ map (\<lambda>i. Store i (word_of_nat (2 * i))) [0..<unat SIZE]\<rparr>) \<and>
     length buf = 1000000 \<and> sint (buf ! 0) = 0 \<and> sint (buf ! 999999) = 1999998)"
proof -
  let ?e = "\<lparr>malloc_ok = True, junk = \<lambda>k. - 1\<rparr>"
  have ok: "malloc_ok ?e" by simp
  from populate_correct [OF ok] obtain s1 buf where
    m: "malloc ?e (int_to_size_t SIZE * sizeof_int) init_state = (Heap_Block, s1)" and
    p: "populate Heap_Block SIZE 0 s1 =
       Inr (s1\<lparr>block := Some buf,
              trace := trace s1 @ map (\<lambda>i. Store i (word_of_nat (2 * i))) [0..<unat SIZE]\<rparr>)" and
    l: "length buf = unat SIZE" and u: "unat SIZE = 1000000" and
    v: "\<forall>i<unat SIZE. sint (buf ! i) = 2 * int i"
    by blast
  from v u have "sint (buf ! 0) = 0" and "sint (buf ! 999999) = 1999998"
    by simp_all
  with ok m p l u show ?thesis
    by (metis (lifting))
qed

text \<open>C4: the exit status is 1 exactly when the allocation fails; the failing run calls
  \<open>malloc\<close> and nothing else (no store, no load, no \<open>printf\<close>, no \<open>free\<close>) and leaves
  standard output empty; and every run ends with exit status 0 or 1.\<close>

theorem allocation_failure_exit:
  "(\<not> malloc_ok e \<longrightarrow>
      main e = Inr (1, \<lparr>block = None, stdout = [], trace = [Malloc 4000000 False]\<rparr>)) \<and>
   ((\<exists>s. main e = Inr (1, s)) \<longrightarrow> \<not> malloc_ok e) \<and>
   (\<exists>c s. main e = Inr (c, s) \<and> (c = 0 \<or> c = 1))"
proof (cases "malloc_ok e")
  case True
  then have "main e = Inr (0, \<lparr>block = None, stdout = ''Sum: 999999000000\<newline>'',
     trace = Malloc 4000000 True # map (\<lambda>j. Store j (word_of_nat (2 * j))) [0..<unat SIZE] @
       map Load [0..<unat SIZE] @ [Printf 999999000000, Free]\<rparr>)"
    by (rule main_success)
  with True show ?thesis by simp
next
  case False
  then have "main e = Inr (1, \<lparr>block = None, stdout = [], trace = [Malloc 4000000 False]\<rparr>)"
    by (rule main_failure)
  with False show ?thesis by simp
qed

theorem allocation_failure_exit_witness:
  "main \<lparr>malloc_ok = False, junk = \<lambda>k. 0\<rparr> =
     Inr (1, \<lparr>block = None, stdout = [], trace = [Malloc 4000000 False]\<rparr>) \<and>
   \<not> malloc_ok \<lparr>malloc_ok = False, junk = \<lambda>k. 0\<rparr> \<and>
   (\<nexists>s. main \<lparr>malloc_ok = True, junk = \<lambda>k. 0\<rparr> = Inr (1, s))"
  using allocation_failure_exit [of "\<lparr>malloc_ok = False, junk = \<lambda>k. 0\<rparr>"]
    allocation_failure_exit [of "\<lparr>malloc_ok = True, junk = \<lambda>k. 0\<rparr>"]
  by auto

text \<open>C5: the accumulator is a 64-bit signed word, and the reduce loop on the populated
  buffer ends without a signed overflow with the accumulator reading exactly the sum of the
  \<open>SIZE\<close> buffer elements, which is \<open>SIZE * (SIZE - 1) = 999999000000\<close> and lies inside
  the range of \<open>long long\<close>.\<close>

theorem accumulator_exact:
  "malloc_ok e \<Longrightarrow>
   \<exists>s1 s2 s3 buf acc.
     malloc e (int_to_size_t SIZE * sizeof_int) init_state = (Heap_Block, s1) \<and>
     populate Heap_Block SIZE 0 s1 = Inr s2 \<and> block s2 = Some buf \<and>
     reduce Heap_Block SIZE 0 0 s2 = Inr (acc, s3) \<and>
     size acc = 64 \<and>
     sint acc = (\<Sum>i = 0..<unat SIZE. sint (buf ! i)) \<and>
     sint acc = sint SIZE * (sint SIZE - 1) \<and>
     sint acc = 999999000000 \<and>
     LLONG_MIN \<le> sint acc \<and> sint acc \<le> LLONG_MAX"
proof -
  assume ok: "malloc_ok e"
  let ?s1 = "\<lparr>block = Some (map (junk e) [0..<unat SIZE]), stdout = [],
        trace = [Malloc 4000000 True]\<rparr>"
  let ?buf = "map (\<lambda>j. word_of_nat (2 * j) :: c_int) [0..<unat SIZE]"
  let ?s2 = "\<lparr>block = Some ?buf, stdout = [],
        trace = [Malloc 4000000 True] @ map (\<lambda>j. Store j (word_of_nat (2 * j))) [0..<unat SIZE]\<rparr>"
  let ?s3 = "\<lparr>block = Some ?buf, stdout = [],
        trace = ([Malloc 4000000 True] @ map (\<lambda>j. Store j (word_of_nat (2 * j))) [0..<unat SIZE])
          @ map Load [0..<unat SIZE]\<rparr>"
  let ?acc = "999999000000 :: c_llong"
  have m: "malloc e (int_to_size_t SIZE * sizeof_int) init_state = (Heap_Block, ?s1)"
    using ok by (rule malloc_SIZE)
  have p: "populate Heap_Block SIZE 0 ?s1 = Inr ?s2"
    by (rule populate_SIZE) simp
  have b: "block ?s2 = Some ?buf"
    by simp
  have r: "reduce Heap_Block SIZE 0 0 ?s2 = Inr (?acc, ?s3)"
    by (rule reduce_SIZE)
  have w: "size ?acc = 64"
    by (simp add: word_size)
  have v: "sint ?acc = 999999000000"
    by simp
  have sm: "sint ?acc = (\<Sum>i = 0..<unat SIZE. sint (?buf ! i))"
    by (simp only: v sum_nth_filled sum_SIZE)
  have cf: "sint ?acc = sint SIZE * (sint SIZE - 1)"
    by (simp add: sint_SIZE)
  have rg: "LLONG_MIN \<le> sint ?acc \<and> sint ?acc \<le> LLONG_MAX"
    by (simp add: LLONG_MIN_def LLONG_MAX_def)
  from m p b r w sm cf v rg show ?thesis
    by blast
qed

theorem accumulator_exact_witness:
  "malloc_ok \<lparr>malloc_ok = True, junk = \<lambda>k. 2147483647\<rparr> \<and>
   (\<exists>s1 s2 s3 acc.
     malloc \<lparr>malloc_ok = True, junk = \<lambda>k. 2147483647\<rparr> (int_to_size_t SIZE * sizeof_int) init_state
       = (Heap_Block, s1) \<and>
     populate Heap_Block SIZE 0 s1 = Inr s2 \<and>
     reduce Heap_Block SIZE 0 0 s2 = Inr (acc, s3) \<and>
     sint acc = 999999000000)"
proof -
  let ?e = "\<lparr>malloc_ok = True, junk = \<lambda>k. 2147483647\<rparr>"
  have ok: "malloc_ok ?e" by simp
  from accumulator_exact [OF ok] ok show ?thesis
    by blast
qed

text \<open>C6: a run whose allocation succeeded calls \<open>free\<close> exactly once, as its last
  call and right after \<open>printf\<close>, and ends with no live block; a run whose allocation
  failed never calls \<open>free\<close> and has no live block either.\<close>

theorem release_exactly_once:
  "(malloc_ok e \<longrightarrow>
      (\<exists>s pre acc. main e = Inr (0, s) \<and> trace s = pre @ [Printf acc, Free] \<and>
         Malloc 4000000 True \<in> set pre \<and> Free \<notin> set pre \<and>
         count_list (trace s) Free = 1 \<and> block s = None)) \<and>
   (\<not> malloc_ok e \<longrightarrow>
      (\<exists>s. main e = Inr (1, s) \<and> count_list (trace s) Free = 0 \<and> block s = None))"
proof (cases "malloc_ok e")
  case True
  let ?pre = "Malloc 4000000 True # map (\<lambda>j. Store j (word_of_nat (2 * j))) [0..<unat SIZE] @
       map Load [0..<unat SIZE]"
  let ?s = "\<lparr>block = None, stdout = ''Sum: 999999000000\<newline>'',
     trace = ?pre @ [Printf 999999000000, Free]\<rparr>"
  have run: "main e = Inr (0, ?s)"
    using main_success [OF True] by simp
  have nf: "Free \<notin> set ?pre"
    by auto
  then have "count_list ?pre Free = 0"
    by (simp only: count_list_0_iff not_False_eq_True)
  then have cnt: "count_list (trace ?s) Free = 1"
    by simp
  have "main e = Inr (0, ?s) \<and> trace ?s = ?pre @ [Printf 999999000000, Free] \<and>
         Malloc 4000000 True \<in> set ?pre \<and> Free \<notin> set ?pre \<and>
         count_list (trace ?s) Free = 1 \<and> block ?s = None"
    using run nf cnt by simp
  then have "\<exists>s pre acc. main e = Inr (0, s) \<and> trace s = pre @ [Printf acc, Free] \<and>
         Malloc 4000000 True \<in> set pre \<and> Free \<notin> set pre \<and>
         count_list (trace s) Free = 1 \<and> block s = None"
    by blast
  with True show ?thesis by simp
next
  case False
  then have "main e = Inr (1, \<lparr>block = None, stdout = [], trace = [Malloc 4000000 False]\<rparr>)"
    by (rule main_failure)
  with False show ?thesis by simp
qed

theorem release_exactly_once_witness:
  "(\<exists>s pre acc. main \<lparr>malloc_ok = True, junk = \<lambda>k. 0\<rparr> = Inr (0, s) \<and>
       trace s = pre @ [Printf acc, Free] \<and> Free \<notin> set pre \<and>
       count_list (trace s) Free = 1 \<and> block s = None) \<and>
   (\<exists>s. main \<lparr>malloc_ok = False, junk = \<lambda>k. 0\<rparr> = Inr (1, s) \<and>
       count_list (trace s) Free = 0 \<and> block s = None)"
proof -
  have "\<exists>s pre acc. main \<lparr>malloc_ok = True, junk = \<lambda>k. 0\<rparr> = Inr (0, s) \<and>
       trace s = pre @ [Printf acc, Free] \<and> Free \<notin> set pre \<and>
       count_list (trace s) Free = 1 \<and> block s = None"
    using release_exactly_once [of "\<lparr>malloc_ok = True, junk = \<lambda>k. 0\<rparr>"] by auto
  moreover have "\<exists>s. main \<lparr>malloc_ok = False, junk = \<lambda>k. 0\<rparr> = Inr (1, s) \<and>
       count_list (trace s) Free = 0 \<and> block s = None"
    using release_exactly_once [of "\<lparr>malloc_ok = False, junk = \<lambda>k. 0\<rparr>"] by auto
  ultimately show ?thesis by blast
qed

text \<open>C7: two runs in which \<open>malloc\<close> has the same outcome show the same exit status
  and the same standard output, whatever the fresh block held.\<close>

theorem deterministic_run:
  "malloc_ok e1 = malloc_ok e2 \<Longrightarrow> observable (main e1) = observable (main e2)"
  by (simp only: observable_main)

theorem deterministic_run_witness:
  "malloc_ok \<lparr>malloc_ok = True, junk = \<lambda>k. 0\<rparr> =
     malloc_ok \<lparr>malloc_ok = True, junk = \<lambda>k. word_of_nat k + 17\<rparr> \<and>
   observable (main \<lparr>malloc_ok = True, junk = \<lambda>k. 0\<rparr>) =
     observable (main \<lparr>malloc_ok = True, junk = \<lambda>k. word_of_nat k + 17\<rparr>)"
  using deterministic_run [of "\<lparr>malloc_ok = True, junk = \<lambda>k. 0\<rparr>"
      "\<lparr>malloc_ok = True, junk = \<lambda>k. word_of_nat k + 17\<rparr>"]
  by simp

text \<open>C8: the populate loop, the reduce loop and \<open>printf\<close> leave the length of the live
  block as it is, from any state; and in a run whose allocation succeeded the block has
  exactly 1000000 elements in the state after \<open>malloc\<close>, after the populate loop, after the
  reduce loop and after \<open>printf\<close>, until \<open>free\<close> ends its lifetime.\<close>

theorem block_length_invariant:
  "(populate p N i s = Inr s' \<longrightarrow> block_length s' = block_length s) \<and>
   (reduce p N i a s = Inr (a', s') \<longrightarrow> block_length s' = block_length s) \<and>
   block_length (printf_Sum a s) = block_length s \<and>
   (malloc_ok e \<longrightarrow>
      (\<exists>s1 s2 s3 s5 acc.
         malloc e (int_to_size_t SIZE * sizeof_int) init_state = (Heap_Block, s1) \<and>
         populate Heap_Block SIZE 0 s1 = Inr s2 \<and>
         reduce Heap_Block SIZE 0 0 s2 = Inr (acc, s3) \<and>
         free Heap_Block (printf_Sum acc s3) = Inr s5 \<and>
         main e = Inr (0, s5) \<and>
         block_length s1 = Some 1000000 \<and>
         block_length s2 = Some 1000000 \<and>
         block_length s3 = Some 1000000 \<and>
         block_length (printf_Sum acc s3) = Some 1000000 \<and>
         block_length s5 = None))"
proof (intro conjI impI)
  assume "populate p N i s = Inr s'"
  then show "block_length s' = block_length s"
    by (rule populate_length)
next
  assume "reduce p N i a s = Inr (a', s')"
  then show "block_length s' = block_length s"
    by (rule reduce_length)
next
  show "block_length (printf_Sum a s) = block_length s"
    by (rule printf_Sum_length)
next
  assume ok: "malloc_ok e"
  let ?s1 = "\<lparr>block = Some (map (junk e) [0..<unat SIZE]), stdout = [],
        trace = [Malloc 4000000 True]\<rparr>"
  let ?buf = "map (\<lambda>j. word_of_nat (2 * j) :: c_int) [0..<unat SIZE]"
  let ?s2 = "\<lparr>block = Some ?buf, stdout = [],
        trace = [Malloc 4000000 True] @ map (\<lambda>j. Store j (word_of_nat (2 * j))) [0..<unat SIZE]\<rparr>"
  let ?s3 = "\<lparr>block = Some ?buf, stdout = [],
        trace = ([Malloc 4000000 True] @ map (\<lambda>j. Store j (word_of_nat (2 * j))) [0..<unat SIZE])
          @ map Load [0..<unat SIZE]\<rparr>"
  let ?acc = "999999000000 :: c_llong"
  let ?s5 = "\<lparr>block = None, stdout = [] @ ''Sum: '' @ dec_int (sint ?acc) @ ''\<newline>'',
        trace = (([Malloc 4000000 True] @ map (\<lambda>j. Store j (word_of_nat (2 * j))) [0..<unat SIZE])
          @ map Load [0..<unat SIZE]) @ [Printf ?acc, Free]\<rparr>"
  have m: "malloc e (int_to_size_t SIZE * sizeof_int) init_state = (Heap_Block, ?s1)"
    using ok by (rule malloc_SIZE)
  have p: "populate Heap_Block SIZE 0 ?s1 = Inr ?s2"
    by (rule populate_SIZE) simp
  have r: "reduce Heap_Block SIZE 0 0 ?s2 = Inr (?acc, ?s3)"
    by (rule reduce_SIZE)
  have f: "free Heap_Block (printf_Sum ?acc ?s3) = Inr ?s5"
    by (rule free_after_printf)
  have run: "main e = Inr (0, ?s5)"
    unfolding main_def main_body_def m using p r f by (simp del: of_nat_mult)
  have l1: "block_length ?s1 = Some 1000000"
    by (simp add: block_length_def unat_SIZE)
  have l2: "block_length ?s2 = Some 1000000"
    using populate_length [OF p] l1 by simp
  have l3: "block_length ?s3 = Some 1000000"
    using reduce_length [OF r] l2 by simp
  have l4: "block_length (printf_Sum ?acc ?s3) = Some 1000000"
    using l3 by (simp only: printf_Sum_length)
  have l5: "block_length ?s5 = None"
    by (simp add: block_length_def)
  from m p r f run l1 l2 l3 l4 l5
  show "\<exists>s1 s2 s3 s5 acc.
         malloc e (int_to_size_t SIZE * sizeof_int) init_state = (Heap_Block, s1) \<and>
         populate Heap_Block SIZE 0 s1 = Inr s2 \<and>
         reduce Heap_Block SIZE 0 0 s2 = Inr (acc, s3) \<and>
         free Heap_Block (printf_Sum acc s3) = Inr s5 \<and>
         main e = Inr (0, s5) \<and>
         block_length s1 = Some 1000000 \<and>
         block_length s2 = Some 1000000 \<and>
         block_length s3 = Some 1000000 \<and>
         block_length (printf_Sum acc s3) = Some 1000000 \<and>
         block_length s5 = None"
    by blast
qed

theorem block_length_invariant_witness:
  "populate Heap_Block 2 0 \<lparr>block = Some [7, 7], stdout = [], trace = []\<rparr> =
     Inr \<lparr>block = Some [0, 2], stdout = [], trace = [Store 0 0, Store 1 2]\<rparr> \<and>
   block_length \<lparr>block = Some [0, 2], stdout = [], trace = [Store 0 0, Store 1 2]\<rparr> =
     block_length \<lparr>block = Some [7, 7], stdout = [], trace = []\<rparr> \<and>
   reduce Heap_Block 2 0 0 \<lparr>block = Some [0, 2], stdout = [], trace = []\<rparr> =
     Inr (2, \<lparr>block = Some [0, 2], stdout = [], trace = [Load 0, Load 1]\<rparr>) \<and>
   block_length \<lparr>block = Some [0, 2], stdout = [], trace = [Load 0, Load 1]\<rparr> =
     block_length \<lparr>block = Some [0, 2], stdout = [], trace = []\<rparr> \<and>
   malloc_ok \<lparr>malloc_ok = True, junk = \<lambda>k. 0\<rparr> \<and>
   (\<exists>s1 s2 s3 s5 acc.
      malloc \<lparr>malloc_ok = True, junk = \<lambda>k. 0\<rparr> (int_to_size_t SIZE * sizeof_int) init_state
        = (Heap_Block, s1) \<and>
      populate Heap_Block SIZE 0 s1 = Inr s2 \<and>
      reduce Heap_Block SIZE 0 0 s2 = Inr (acc, s3) \<and>
      free Heap_Block (printf_Sum acc s3) = Inr s5 \<and>
      main \<lparr>malloc_ok = True, junk = \<lambda>k. 0\<rparr> = Inr (0, s5) \<and>
      block_length s1 = Some 1000000 \<and>
      block_length s2 = Some 1000000 \<and>
      block_length s3 = Some 1000000 \<and>
      block_length (printf_Sum acc s3) = Some 1000000 \<and>
      block_length s5 = None)"
proof -
  let ?s0 = "\<lparr>block = Some [7, 7 :: c_int], stdout = [], trace = []\<rparr>"
  let ?s1 = "\<lparr>block = Some [0, 2 :: c_int], stdout = [], trace = [Store 0 0, Store 1 2]\<rparr>"
  let ?t1 = "\<lparr>block = Some [0, 2 :: c_int], stdout = [], trace = []\<rparr>"
  let ?t2 = "\<lparr>block = Some [0, 2 :: c_int], stdout = [], trace = [Load 0, Load 1]\<rparr>"
  let ?e = "\<lparr>malloc_ok = True, junk = \<lambda>k. 0\<rparr>"
  have p: "populate Heap_Block 2 0 ?s0 = Inr ?s1"
    using populate_fresh [of 2 "[7, 7]" "[]" "[]"] by (simp add: upt_rec)
  have r: "reduce Heap_Block 2 0 0 ?t1 = Inr (2, ?t2)"
    using reduce_filled [of 2 "[]" "[]"] by (simp add: upt_rec)
  have ok: "malloc_ok ?e"
    by simp
  note inv = block_length_invariant [where e = ?e]
  have a: "block_length ?s1 = block_length ?s0"
    using inv [where p = Heap_Block and N = 2 and i = 0 and s = ?s0 and s' = ?s1] p by blast
  have b: "block_length ?t2 = block_length ?t1"
    using inv [where p = Heap_Block and N = 2 and i = 0 and a = 0 and s = ?t1 and a' = 2 and s' = ?t2] r
    by blast
  have c: "\<exists>s1 s2 s3 s5 acc.
      malloc ?e (int_to_size_t SIZE * sizeof_int) init_state = (Heap_Block, s1) \<and>
      populate Heap_Block SIZE 0 s1 = Inr s2 \<and>
      reduce Heap_Block SIZE 0 0 s2 = Inr (acc, s3) \<and>
      free Heap_Block (printf_Sum acc s3) = Inr s5 \<and>
      main ?e = Inr (0, s5) \<and>
      block_length s1 = Some 1000000 \<and>
      block_length s2 = Some 1000000 \<and>
      block_length s3 = Some 1000000 \<and>
      block_length (printf_Sum acc s3) = Some 1000000 \<and>
      block_length s5 = None"
    using inv [where p = Heap_Block and N = 2 and i = 0 and s = ?s0 and s' = ?s1] ok by blast
  from p a r b ok c show ?thesis
    by (intro conjI)
qed

text \<open>C9: with \<open>SIZE\<close> set to 0 the run meets no fault: both loops end at once without
  an element access, and when \<open>malloc\<close> returns a block the reported sum is 0; with
  \<open>SIZE\<close> set to 1 a run whose allocation succeeded prints \<open>Sum: 0\<close> and a line
  terminator.\<close>

theorem boundary_sizes:
  "main_body 0 e =
     (if malloc_ok e
      then Inr (0, \<lparr>block = None, stdout = ''Sum: 0\<newline>'', trace = [Malloc 0 True, Printf 0, Free]\<rparr>)
      else Inr (1, \<lparr>block = None, stdout = [], trace = [Malloc 0 False]\<rparr>)) \<and>
   populate Heap_Block 0 0 s = Inr s \<and>
   reduce Heap_Block 0 0 0 s = Inr (0, s) \<and>
   main_body 1 e =
     (if malloc_ok e
      then Inr (0, \<lparr>block = None, stdout = ''Sum: 0\<newline>'',
             trace = [Malloc 4 True, Store 0 0, Load 0, Printf 0, Free]\<rparr>)
      else Inr (1, \<lparr>block = None, stdout = [], trace = [Malloc 4 False]\<rparr>))"
  by (simp only: main_body_0 main_body_1 populate_empty reduce_empty simp_thms)

text \<open>C10: a run whose allocation succeeded ends without a fault; every store and every
  load of its trace is at an index below \<open>SIZE = 1000000\<close>; every value stored is \<open>2 * i\<close>
  for its index \<open>i\<close>, at most 1999998 and inside the range of \<open>int\<close>; and the byte count
  passed to \<open>malloc\<close> is \<open>SIZE * 4 = 4000000\<close>, computed without wrap-around.\<close>

theorem accesses_in_bounds:
  "malloc_ok e \<Longrightarrow>
   \<exists>s. main e = Inr (0, s) \<and>
     unat SIZE = 1000000 \<and>
     list_all (in_bounds (unat SIZE)) (trace s) \<and>
     (\<forall>i v. Store i v \<in> set (trace s) \<longrightarrow>
        sint v = 2 * int i \<and> INT_MIN \<le> 2 * int i \<and> 2 * int i \<le> 1999998 \<and> 1999998 \<le> INT_MAX) \<and>
     (\<forall>b ok. Malloc b ok \<in> set (trace s) \<longrightarrow> b = 4000000) \<and>
     uint (int_to_size_t SIZE * sizeof_int) = sint SIZE * 4 \<and>
     unat (int_to_size_t SIZE * sizeof_int) = 4000000"
proof -
  assume ok: "malloc_ok e"
  let ?tr = "Malloc 4000000 True # map (\<lambda>j. Store j (word_of_nat (2 * j))) [0..<unat SIZE] @
       map Load [0..<unat SIZE] @ [Printf 999999000000, Free]"
  let ?s = "\<lparr>block = None, stdout = ''Sum: 999999000000\<newline>'', trace = ?tr\<rparr>"
  have run: "main e = Inr (0, ?s)"
    using ok by (rule main_success)
  have tr: "trace ?s = ?tr"
    by (simp only: state.simps)
  have ib: "list_all (in_bounds (unat SIZE)) (trace ?s)"
    unfolding tr by (auto simp: list_all_iff)
  have st: "\<forall>i v. Store i v \<in> set (trace ?s) \<longrightarrow>
        sint v = 2 * int i \<and> INT_MIN \<le> 2 * int i \<and> 2 * int i \<le> 1999998 \<and> 1999998 \<le> INT_MAX"
    unfolding tr
  proof (intro allI impI)
    fix i v
    assume "Store i v \<in> set ?tr"
    then have "i < unat SIZE" and "v = word_of_nat (2 * i)"
      by auto
    with stored_value [of i] show
      "sint v = 2 * int i \<and> INT_MIN \<le> 2 * int i \<and> 2 * int i \<le> 1999998 \<and> 1999998 \<le> INT_MAX"
      by (simp add: INT_MIN_def INT_MAX_def)
  qed
  have ma: "\<forall>b ok. Malloc b ok \<in> set (trace ?s) \<longrightarrow> b = 4000000"
    unfolding tr by auto
  from run unat_SIZE ib st ma bytes_no_wrap bytes_requested show ?thesis
    by (intro exI [of _ ?s] conjI)
qed

theorem accesses_in_bounds_witness:
  "malloc_ok \<lparr>malloc_ok = True, junk = \<lambda>k. - 5\<rparr> \<and>
   (\<exists>s. main \<lparr>malloc_ok = True, junk = \<lambda>k. - 5\<rparr> = Inr (0, s) \<and>
     list_all (in_bounds 1000000) (trace s))"
proof -
  let ?e = "\<lparr>malloc_ok = True, junk = \<lambda>k. - 5\<rparr>"
  have ok: "malloc_ok ?e"
    by simp
  from accesses_in_bounds [OF ok] obtain s where
    run: "main ?e = Inr (0, s)" and u: "unat SIZE = 1000000" and
    ib: "list_all (in_bounds (unat SIZE)) (trace s)"
    by blast
  from ib have "list_all (in_bounds 1000000) (trace s)"
    unfolding u .
  with ok run show ?thesis
    by blast
qed

end
